theory Spec2Isabelle
  imports Main "HOL-Library.Sublist"
begin

text \<open>
  A model of \<^verbatim>\<open>src/interactive_conditional_samples.py\<close>: the command-line front end
  that reads a prompt (typed, or fetched from a URL), asks the sampler for
  continuations and prints the quotes found in them.  The functions
  \<^verbatim>\<open>find_quotes\<close>, \<^verbatim>\<open>get_batches\<close> and \<^verbatim>\<open>interact_model\<close> are translated statement
  by statement; exceptions are values of a sum type, and the console, the network
  and the sampler session are an explicit state.
\<close>

section \<open>Strings and the quote filter\<close>

text \<open>
  Python strings are modelled as character lists.  The two characters that the
  source writes with escapes are the double quote and the line feed.
\<close>

abbreviation dquote :: char where
  "dquote \<equiv> CHR 0x22"

abbreviation newline :: char where
  "newline \<equiv> CHR 0x0A"

text \<open>
  \<^verbatim>\<open>str.split(sep)\<close> scans from the left; at every position where the separator
  starts it closes the current segment and jumps over the separator, so that
  occurrences never overlap.  \<open>cur\<close> is the segment collected so far.  Python
  raises ValueError for an empty separator; the only call in the source passes
  the two-character literal, and the test \<open>sep \<noteq> []\<close> keeps the recursion
  well founded.
\<close>

function split_loop :: "string \<Rightarrow> string \<Rightarrow> string \<Rightarrow> string list" where
  "split_loop sep cur [] = [cur]"
| "split_loop sep cur (c # cs) =
     (if sep \<noteq> [] \<and> prefix sep (c # cs)
      then cur # split_loop sep [] (drop (length sep) (c # cs))
      else split_loop sep (cur @ [c]) cs)"
  by pat_completeness auto
termination
  by (relation "measure (\<lambda>(sep, cur, s). length s)") auto

definition str_split :: "string \<Rightarrow> string \<Rightarrow> string list" where
  "str_split s sep = split_loop sep [] s"

definition startswith :: "string \<Rightarrow> string \<Rightarrow> bool" where
  "startswith s p = prefix p s"

definition endswith :: "string \<Rightarrow> string \<Rightarrow> bool" where
  "endswith s p = suffix p s"

text \<open>\<^verbatim>\<open>sep.join(xs)\<close>.\<close>

fun str_join :: "string \<Rightarrow> string list \<Rightarrow> string" where
  "str_join sep [] = []"
| "str_join sep [x] = x"
| "str_join sep (x # y # ys) = x @ sep @ str_join sep (y # ys)"

text \<open>
  \<^verbatim>\<open>
  def find_quotes(batch):
      quotes = []
      potential_quotes = batch.split('\n\n')
      for potential_quote in potential_quotes:
          if potential_quote.startswith('"') and potential_quote.endswith('" - Alan Watts'):
              quotes.append(potential_quote)
      return quotes
  \<close>
  The loop is a left fold over the segments with the list \<open>quotes\<close> as its state.
\<close>

definition find_quotes :: "string \<Rightarrow> string list" where
  "find_quotes batch =
     (let potential_quotes = str_split batch [newline, newline]
      in fold (\<lambda>potential_quote quotes.
                 if startswith potential_quote [dquote]
                    \<and> endswith potential_quote (dquote # '' - Alan Watts'')
                 then quotes @ [potential_quote] else quotes)
              potential_quotes [])"


section \<open>Exceptions, names and integer arithmetic\<close>

text \<open>
  The exceptions that the file itself can raise.  \<open>ValueError\<close> carries the
  context-window size that the message of line 56 reports.  In Python
  \<open>UnboundLocalError\<close> is a subclass of \<open>NameError\<close>; \<open>is_name_error\<close> is the
  test \<^verbatim>\<open>isinstance(e, NameError)\<close>.
\<close>

datatype error =
    AssertionError
  | ZeroDivisionError
  | ValueError int
  | NameError string
  | UnboundLocalError string
  | IndexError
  | EOFError

fun is_name_error :: "error \<Rightarrow> bool" where
  "is_name_error (NameError n) = True"
| "is_name_error (UnboundLocalError n) = True"
| "is_name_error AssertionError = False"
| "is_name_error ZeroDivisionError = False"
| "is_name_error (ValueError k) = False"
| "is_name_error IndexError = False"
| "is_name_error EOFError = False"

text \<open>
  The names bound at module scope: the imports of lines 3 to 10 and the three
  function definitions.  A name that a function body reads without assigning it
  is looked up here and then among the builtins; \<open>builtins\<close> lists those the
  file calls (Python has no builtin called \<^verbatim>\<open>context\<close>).
\<close>

definition module_globals :: "string list" where
  "module_globals =
     [''fire'', ''json'', ''os'', ''requests'', ''np'', ''tf'', ''model'', ''sample'',
      ''encoder'', ''interact_model'', ''get_batches'', ''find_quotes'']"

definition builtins :: "string list" where
  "builtins = [''open'', ''input'', ''print'', ''range'', ''len'', ''ValueError'']"

definition load_global :: "string \<Rightarrow> error + unit" where
  "load_global name =
     (if name \<in> set module_globals \<or> name \<in> set builtins then Inr ()
      else Inl (NameError name))"

text \<open>
  A name assigned somewhere in a function body is local to it; reading it before
  any assignment has run raises \<open>UnboundLocalError\<close>.  \<open>None\<close> is the unbound
  state of the variable.
\<close>

definition load_local :: "string \<Rightarrow> 'a option \<Rightarrow> error + 'a" where
  "load_local name v = (case v of None \<Rightarrow> Inl (UnboundLocalError name) | Some x \<Rightarrow> Inr x)"

text \<open>
  \<^verbatim>\<open>%\<close> and \<^verbatim>\<open>//\<close> on Python integers round towards minus infinity, as \<open>mod\<close>
  and \<open>div\<close> on \<open>int\<close> do, and raise for a zero divisor.
\<close>

definition py_mod :: "int \<Rightarrow> int \<Rightarrow> error + int" where
  "py_mod a b = (if b = 0 then Inl ZeroDivisionError else Inr (a mod b))"

definition py_floordiv :: "int \<Rightarrow> int \<Rightarrow> error + int" where
  "py_floordiv a b = (if b = 0 then Inl ZeroDivisionError else Inr (a div b))"

section \<open>External collaborators and the outside world\<close>

text \<open>
  The tokenizer, the hyperparameter file, the HTTP client and the sampler are not
  part of the file; they are parameters of the model.  \<open>sample_sequence len k feed\<close>
  is what the \<open>k\<close>-th call of \<^verbatim>\<open>sess.run(output, feed_dict={context: feed})\<close>
  returns for the graph built with output length \<open>len\<close> (the index \<open>k\<close> stands for
  the state of the random number generator).  Loading the encoder, the
  hyperparameters and the checkpoint is assumed to succeed.  The decoding
  parameters \<^verbatim>\<open>temperature\<close>, \<^verbatim>\<open>top_k\<close>, \<^verbatim>\<open>top_p\<close> and the \<^verbatim>\<open>seed\<close> only reach the
  sampler and are part of that parameter.
\<close>

record encoder =
  encode :: "string \<Rightarrow> int list"
  decode :: "int list \<Rightarrow> string"

record env =
  get_encoder :: encoder
  n_ctx :: int
  requests_get :: "string \<Rightarrow> string"
  sample_sequence :: "int \<Rightarrow> nat \<Rightarrow> int list list \<Rightarrow> int list list"

text \<open>
  The observable state: the lines still to be read from standard input, what has
  been written to standard output (one entry per prompt or printed line), the
  URLs fetched so far, and the number of sampler runs so far.
\<close>

record world =
  stdin :: "string list"
  stdout :: "string list"
  fetched :: "string list"
  sampler_runs :: nat

text \<open>The arguments of \<^verbatim>\<open>interact_model\<close> that the file itself inspects.\<close>

record args =
  model_name_arg :: string
  nsamples_arg :: int
  batch_size_arg :: "int option"
  length_arg :: "int option"
  prompt_url_arg :: "string option"
  author_arg :: string

definition print_py :: "string \<Rightarrow> world \<Rightarrow> world" where
  "print_py line w = w\<lparr>stdout := stdout w @ [line]\<rparr>"

text \<open>
  \<^verbatim>\<open>input(p)\<close> writes the prompt, then reads one line without its line end; at end
  of input it raises \<open>EOFError\<close>.
\<close>

definition input_py :: "string \<Rightarrow> world \<Rightarrow> (error + string) \<times> world" where
  "input_py p w =
     (case stdin w of
        [] \<Rightarrow> (Inl EOFError, w\<lparr>stdout := stdout w @ [p]\<rparr>)
      | l # ls \<Rightarrow> (Inr l, w\<lparr>stdin := ls, stdout := stdout w @ [p]\<rparr>))"

text \<open>
  Stand-ins for the tokenizer and the sampler, for runs on concrete inputs: one
  token per character, and a sampler that hands back what it was fed.
\<close>

definition byte_encoder :: encoder where
  "byte_encoder = \<lparr>encode = map of_char, decode = map char_of\<rparr>"

definition echo_output :: "nat \<Rightarrow> int list list \<Rightarrow> int list list" where
  "echo_output k feed = feed"

section \<open>get_batches\<close>

text \<open>
  \<^verbatim>\<open>
  for i in range(batch_size):
      generated += 1
      text = enc.decode(out[i])
      batches.append(text)
  \<close>
  The state of the loop is the counter \<open>generated\<close> and the list \<open>batches\<close>;
  \<open>out[i]\<close> raises \<open>IndexError\<close> past the last row.
\<close>

fun decode_rows ::
  "encoder \<Rightarrow> int list list \<Rightarrow> nat list \<Rightarrow> int \<times> string list \<Rightarrow> error + int \<times> string list"
where
  "decode_rows enc out [] (generated, batches) = Inr (generated, batches)"
| "decode_rows enc out (i # rest) (generated, batches) =
     (if i < length out
      then decode_rows enc out rest (generated + 1, batches @ [decode enc (out ! i)])
      else Inl IndexError)"

text \<open>
  One pass through the body of the outer loop (lines 100 to 107).  The dictionary
  display of line 101 evaluates its key first, the name \<^verbatim>\<open>context\<close>, which
  \<^verbatim>\<open>get_batches\<close> never assigns: it is looked up at module scope.  Only then would the
  sampler run; \<^verbatim>\<open>[:, len(context_tokens):]\<close> drops the echoed prompt from every row.
\<close>

definition sample_round ::
  "encoder \<Rightarrow> (nat \<Rightarrow> int list list \<Rightarrow> int list list) \<Rightarrow> int list \<Rightarrow> int \<Rightarrow> int \<Rightarrow> world
     \<Rightarrow> (error + int \<times> string list) \<times> world"
where
  "sample_round enc output context_tokens batch_size generated w =
     (case load_global ''context'' of
        Inl err \<Rightarrow> (Inl err, w)
      | Inr _ \<Rightarrow>
          (let feed = replicate (nat batch_size) context_tokens;
               raw = output (sampler_runs w) feed;
               w' = w\<lparr>sampler_runs := Suc (sampler_runs w)\<rparr>;
               out = map (drop (length context_tokens)) raw
           in (decode_rows enc out [0..<nat batch_size] (generated, []), w')))"

text \<open>
  The outer loop, \<^verbatim>\<open>for _ in range(nsamples // batch_size)\<close>, with the number of
  rounds left as recursion argument.  Every round assigns \<open>batches\<close> afresh, so the
  variable is bound after the first round and holds the last round's list.
\<close>

fun rounds ::
  "encoder \<Rightarrow> (nat \<Rightarrow> int list list \<Rightarrow> int list list) \<Rightarrow> int list \<Rightarrow> int \<Rightarrow> nat
     \<Rightarrow> int \<times> string list option \<Rightarrow> world \<Rightarrow> (error + int \<times> string list option) \<times> world"
where
  "rounds enc output context_tokens batch_size 0 st w = (Inr st, w)"
| "rounds enc output context_tokens batch_size (Suc k) (generated, batches) w =
     (case sample_round enc output context_tokens batch_size generated w of
        (Inl err, w') \<Rightarrow> (Inl err, w')
      | (Inr (generated', batches'), w') \<Rightarrow>
          rounds enc output context_tokens batch_size k (generated', Some batches') w')"

text \<open>
  \<^verbatim>\<open>
  def get_batches(prompt, enc, nsamples, batch_size, sess, output):
      context_tokens = enc.encode(prompt)
      generated = 0
      for _ in range(nsamples // batch_size):
          ...
      return batches
  \<close>
  The session is the world's run counter; \<open>output\<close> is the sampler of the graph
  that \<^verbatim>\<open>interact_model\<close> built.  \<^verbatim>\<open>range\<close> of a negative number is empty.
\<close>

definition get_batches ::
  "string \<Rightarrow> encoder \<Rightarrow> int \<Rightarrow> int \<Rightarrow> (nat \<Rightarrow> int list list \<Rightarrow> int list list) \<Rightarrow> world
     \<Rightarrow> (error + string list) \<times> world"
where
  "get_batches prompt enc nsamples batch_size output w =
     (let context_tokens = encode enc prompt in
      case py_floordiv nsamples batch_size of
        Inl err \<Rightarrow> (Inl err, w)
      | Inr r \<Rightarrow>
          (case rounds enc output context_tokens batch_size (nat r) (0, None) w of
             (Inl err, w') \<Rightarrow> (Inl err, w')
           | (Inr (generated, batches), w') \<Rightarrow> (load_local ''batches'' batches, w')))"


section \<open>interact_model\<close>

text \<open>
  Lines 44 to 46:
  \<^verbatim>\<open>
  if batch_size is None:
      batch_size = 1
  assert nsamples % batch_size == 0
  \<close>
  The result is the batch size in force afterwards.
\<close>

definition validate_batch :: "int \<Rightarrow> int option \<Rightarrow> error + int" where
  "validate_batch nsamples batch_size =
     (let batch_size = (case batch_size of None \<Rightarrow> 1 | Some b \<Rightarrow> b) in
      case py_mod nsamples batch_size of
        Inl err \<Rightarrow> Inl err
      | Inr m \<Rightarrow> if m = 0 then Inr batch_size else Inl AssertionError)"

text \<open>
  Lines 53 to 56:
  \<^verbatim>\<open>
  if length is None:
      length = hparams.n_ctx // 2
  elif length > hparams.n_ctx:
      raise ValueError("Can't get samples longer than window size: %s" % hparams.n_ctx)
  \<close>
  The result is the output length in force afterwards.
\<close>

definition validate_length :: "int option \<Rightarrow> int \<Rightarrow> error + int" where
  "validate_length len hparams_n_ctx =
     (case len of
        None \<Rightarrow> Inr (hparams_n_ctx div 2)
      | Some l \<Rightarrow> if l > hparams_n_ctx then Inl (ValueError hparams_n_ctx) else Inr l)"

text \<open>
  The block that both modes run on the result of \<^verbatim>\<open>get_batches\<close>:
  \<^verbatim>\<open>
  quotes = []
  for batch in batches:
      quotes.extend(find_quotes(batch))
  for quote in quotes:
      print(quote)
  \<close>
\<close>

definition collect_quotes :: "string list \<Rightarrow> string list" where
  "collect_quotes batches = fold (\<lambda>batch quotes. quotes @ find_quotes batch) batches []"

definition print_all :: "string list \<Rightarrow> world \<Rightarrow> world" where
  "print_all quotes w = fold print_py quotes w"

text \<open>
  Lines 86 to 88, the inner loop of the interactive mode:
  \<^verbatim>\<open>
  while not raw_text:
      print('Prompt should not be empty!')
      raw_text = input("Model prompt >>> ")
  \<close>
  Every pass takes one line from standard input, which bounds the loop.
\<close>

function read_nonempty :: "string \<Rightarrow> world \<Rightarrow> (error + string) \<times> world" where
  "read_nonempty raw_text w =
     (if raw_text = [] then
        (case input_py ''Model prompt >>> '' (print_py ''Prompt should not be empty!'' w) of
           (Inl err, w') \<Rightarrow> (Inl err, w')
         | (Inr raw_text', w') \<Rightarrow> read_nonempty raw_text' w')
      else (Inr raw_text, w))"
  by pat_completeness auto
termination
  by (relation "measure (\<lambda>(raw_text, w). length (stdin w) + (if raw_text = [] then 1 else 0))")
     (auto simp: input_py_def print_py_def split: list.splits)

declare read_nonempty.simps [simp del]

text \<open>Lines 85 to 88: the first read followed by the inner loop.\<close>

definition read_prompt :: "world \<Rightarrow> (error + string) \<times> world" where
  "read_prompt w =
     (case input_py ''Model prompt >>> '' w of
        (Inl err, w') \<Rightarrow> (Inl err, w')
      | (Inr raw_text, w') \<Rightarrow> read_nonempty raw_text w')"

text \<open>
  What is left on standard input never grows, and generation does not touch it:
  the facts that bound the outer loop.
\<close>

lemma stdin_print_all: "stdin (print_all quotes w) = stdin w"
  unfolding print_all_def by (induction quotes arbitrary: w) (simp_all add: print_py_def)

lemma stdin_read_nonempty: "length (stdin (snd (read_nonempty raw_text w))) \<le> length (stdin w)"
proof (induction raw_text w rule: read_nonempty.induct)
  case (1 raw_text w)
  show ?case
  proof (cases "raw_text = []")
    case False
    then show ?thesis by (simp add: read_nonempty.simps [of raw_text w])
  next
    case True
    let ?w = "print_py ''Prompt should not be empty!'' w"
    show ?thesis
    proof (cases "stdin w")
      case Nil
      then show ?thesis using True
        by (simp add: read_nonempty.simps [of "[]" w] input_py_def print_py_def)
    next
      case (Cons l ls)
      have inp: "input_py ''Model prompt >>> '' ?w
          = (Inr l, ?w\<lparr>stdin := ls, stdout := stdout ?w @ [''Model prompt >>> '']\<rparr>)"
        using Cons by (simp add: input_py_def print_py_def)
      have "length (stdin (snd (read_nonempty l
               (?w\<lparr>stdin := ls, stdout := stdout ?w @ [''Model prompt >>> '']\<rparr>)))) \<le> length ls"
        using 1 [OF True inp [symmetric] refl] by simp
      then show ?thesis using True Cons inp
        by (simp add: read_nonempty.simps [of "[]" w] print_py_def)
    qed
  qed
qed

lemma stdin_read_prompt:
  "read_prompt w = (Inr t, w') \<Longrightarrow> length (stdin w') < length (stdin w)"
proof (cases "stdin w")
  case Nil
  assume "read_prompt w = (Inr t, w')"
  with Nil show ?thesis by (simp add: read_prompt_def input_py_def)
next
  case (Cons l ls)
  assume r: "read_prompt w = (Inr t, w')"
  let ?w = "w\<lparr>stdin := ls, stdout := stdout w @ [''Model prompt >>> '']\<rparr>"
  have "read_prompt w = read_nonempty l ?w"
    using Cons by (simp add: read_prompt_def input_py_def)
  then have "read_nonempty l ?w = (Inr t, w')" using r by simp
  then have "w' = snd (read_nonempty l ?w)" by simp
  then show ?thesis using stdin_read_nonempty [of l ?w] Cons by simp
qed

lemma stdin_sample_round:
  "sample_round enc output toks bs g w = (r, w') \<Longrightarrow> stdin w' = stdin w"
  by (auto simp: sample_round_def Let_def split: sum.splits)

lemma stdin_rounds:
  "rounds enc output toks bs k st w = (r, w') \<Longrightarrow> stdin w' = stdin w"
proof (induction k arbitrary: st w)
  case 0
  then show ?case by simp
next
  case (Suc k)
  obtain g b where st: "st = (g, b)" by (cases st)
  obtain r1 w1 where sr: "sample_round enc output toks bs g w = (r1, w1)"
    by (cases "sample_round enc output toks bs g w")
  have w1: "stdin w1 = stdin w" using sr by (rule stdin_sample_round)
  show ?case
  proof (cases r1)
    case (Inl e)
    then show ?thesis using Suc.prems st sr w1 by simp
  next
    case (Inr gb)
    obtain g' b' where gb: "gb = (g', b')" by (cases gb)
    have "rounds enc output toks bs k (g', Some b') w1 = (r, w')"
      using Suc.prems st sr Inr gb by simp
    then have "stdin w' = stdin w1" by (rule Suc.IH)
    then show ?thesis using w1 by simp
  qed
qed

lemma stdin_get_batches:
  "get_batches prompt enc nsamples batch_size output w = (r, w') \<Longrightarrow> stdin w' = stdin w"
  unfolding get_batches_def Let_def
  by (auto split: sum.splits prod.splits dest: stdin_rounds)

text \<open>
  Lines 84 to 94, the loop \<^verbatim>\<open>while True\<close> of the interactive mode.  The call of
  line 89 passes the local variable \<^verbatim>\<open>prompt\<close>, not \<^verbatim>\<open>raw_text\<close>; its arguments are
  evaluated before \<^verbatim>\<open>get_batches\<close> is entered.  \<open>prompt\<close> is the state of that
  variable, \<open>None\<close> while unbound.  The loop has no exit of its own: it ends with
  an exception, at the latest \<open>EOFError\<close> when standard input is used up.
\<close>

function interact_loop ::
  "encoder \<Rightarrow> int \<Rightarrow> int \<Rightarrow> (nat \<Rightarrow> int list list \<Rightarrow> int list list) \<Rightarrow> string option \<Rightarrow> world
     \<Rightarrow> (error + unit) \<times> world"
where
  "interact_loop enc nsamples batch_size output prompt w =
     (case read_prompt w of
        (Inl err, w1) \<Rightarrow> (Inl err, w1)
      | (Inr raw_text, w1) \<Rightarrow>
          (case load_local ''prompt'' prompt of
             Inl err \<Rightarrow> (Inl err, w1)
           | Inr p \<Rightarrow>
               (case get_batches p enc nsamples batch_size output w1 of
                  (Inl err, w2) \<Rightarrow> (Inl err, w2)
                | (Inr batches, w2) \<Rightarrow>
                    interact_loop enc nsamples batch_size output prompt
                      (print_all (collect_quotes batches) w2))))"
  by pat_completeness auto
termination
proof (relation "measure (\<lambda>(enc, nsamples, batch_size, output, prompt, w). length (stdin w))")
  show "wf (measure (\<lambda>(enc, nsamples, batch_size, output, prompt, w). length (stdin w)))"
    by simp
next
  fix enc :: encoder and nsamples batch_size :: int
    and out_fn :: "nat \<Rightarrow> int list list \<Rightarrow> int list list"
    and prompt :: "string option" and w x1 w1 raw_text p x2 w2 batches
  assume rp: "(x1, w1) = read_prompt w" "x1 = Inr raw_text"
    and gb: "(x2, w2) = get_batches p enc nsamples batch_size out_fn w1"
  have "length (stdin w1) < length (stdin w)"
    using rp stdin_read_prompt [of w raw_text w1] by simp
  moreover have "stdin w2 = stdin w1"
    using gb stdin_get_batches [of p enc nsamples batch_size out_fn w1 x2 w2] by simp
  ultimately show "((enc, nsamples, batch_size, out_fn, prompt,
        print_all (collect_quotes batches) w2),
       (enc, nsamples, batch_size, out_fn, prompt, w))
      \<in> measure (\<lambda>(enc, nsamples, batch_size, output, prompt, w). length (stdin w))"
    by (simp add: stdin_print_all)
qed

declare interact_loop.simps [simp del]

text \<open>
  \<^verbatim>\<open>interact_model\<close> from the first statement on.  \<^verbatim>\<open>if prompt_url:\<close> holds for a
  string that is not empty; in that branch the only assignment to \<^verbatim>\<open>prompt\<close> takes
  place, and the branch returns.  The interactive loop is therefore entered with
  \<^verbatim>\<open>prompt\<close> unbound.  The argument \<^verbatim>\<open>author\<close> is not read anywhere in the body.
\<close>

definition interact_model :: "env \<Rightarrow> args \<Rightarrow> world \<Rightarrow> (error + unit) \<times> world" where
  "interact_model E a w =
     (case validate_batch (nsamples_arg a) (batch_size_arg a) of
        Inl err \<Rightarrow> (Inl err, w)
      | Inr batch_size \<Rightarrow>
          (let enc = get_encoder E in
           case validate_length (length_arg a) (n_ctx E) of
             Inl err \<Rightarrow> (Inl err, w)
           | Inr len \<Rightarrow>
               (let output = sample_sequence E len in
                case prompt_url_arg a of
                  Some (c # cs) \<Rightarrow>
                    (let w1 = w\<lparr>fetched := fetched w @ [c # cs]\<rparr>;
                         prompt = requests_get E (c # cs)
                     in case get_batches prompt enc (nsamples_arg a) batch_size output w1 of
                          (Inl err, w2) \<Rightarrow> (Inl err, w2)
                        | (Inr batches, w2) \<Rightarrow> (Inr (), print_all (collect_quotes batches) w2))
                | _ \<Rightarrow> interact_loop enc (nsamples_arg a) batch_size output None w)))"

section \<open>Properties of the split and of the quote filter\<close>

text \<open>
  The segment collected so far only ever becomes a prefix of the first segment
  returned, so the loop can be read with an empty start.
\<close>

lemma split_loop_nonempty: "split_loop sep cur s \<noteq> []"
  by (induction sep cur s rule: split_loop.induct) auto

lemma split_loop_shift:
  "split_loop sep (a @ cur) s = (a @ hd (split_loop sep cur s)) # tl (split_loop sep cur s)"
proof (induction sep cur s arbitrary: a rule: split_loop.induct)
  case (1 sep cur)
  show ?case by simp
next
  case (2 sep cur c cs)
  show ?case
  proof (cases "sep \<noteq> [] \<and> prefix sep (c # cs)")
    case True
    then show ?thesis by simp
  next
    case False
    have l: "split_loop sep (a @ cur) (c # cs) = split_loop sep (a @ (cur @ [c])) cs"
      using False by (cases "sep = []") simp_all
    have r: "split_loop sep cur (c # cs) = split_loop sep (cur @ [c]) cs"
      using False by (cases "sep = []") simp_all
    show ?thesis
      unfolding l r using False by (intro 2(2)) simp
  qed
qed

lemma split_loop_acc:
  "split_loop sep cur s = (cur @ hd (split_loop sep [] s)) # tl (split_loop sep [] s)"
  using split_loop_shift [of sep cur "[]" s] by simp

lemma str_join_Cons: "xs \<noteq> [] \<Longrightarrow> str_join sep (x # xs) = x @ sep @ str_join sep xs"
  by (cases xs) auto


lemma str_join_split_loop: "str_join sep (split_loop sep cur s) = cur @ s"
proof (induction sep cur s rule: split_loop.induct)
  case (1 sep cur)
  show ?case by simp
next
  case (2 sep cur c cs)
  show ?case
  proof (cases "sep \<noteq> [] \<and> prefix sep (c # cs)")
    case True
    let ?rest = "drop (length sep) (c # cs)"
    have unfold: "split_loop sep cur (c # cs) = cur # split_loop sep [] ?rest"
      using True by simp
    have "take (length sep) (c # cs) = sep"
      using True by (metis append_eq_conv_conj prefix_def)
    then have whole: "sep @ ?rest = c # cs"
      by (metis append_take_drop_id)
    have "str_join sep (split_loop sep [] ?rest) = ?rest"
      using 2(1) True by simp
    then have "str_join sep (cur # split_loop sep [] ?rest) = cur @ sep @ ?rest"
      by (simp only: str_join_Cons [OF split_loop_nonempty])
    then show ?thesis by (simp only: unfold whole)
  next
    case False
    have "split_loop sep cur (c # cs) = split_loop sep (cur @ [c]) cs"
      using False by (cases "sep = []") simp_all
    moreover have "str_join sep (split_loop sep (cur @ [c]) cs) = (cur @ [c]) @ cs"
      using False by (intro 2(2)) simp
    ultimately show ?thesis by simp
  qed
qed

lemma prefix_hd_str_join: "xs \<noteq> [] \<Longrightarrow> prefix (hd xs) (str_join sep xs)"
proof (cases xs)
  case Nil
  assume "xs \<noteq> []"
  with Nil show ?thesis by simp
next
  case (Cons x ys)
  then show ?thesis by (cases ys) simp_all
qed

lemma hd_split_loop_prefix: "prefix (hd (split_loop sep [] s)) s"
proof -
  have "prefix (hd (split_loop sep [] s)) (str_join sep (split_loop sep [] s))"
    by (rule prefix_hd_str_join) (rule split_loop_nonempty)
  then show ?thesis by (simp only: str_join_split_loop append_Nil)
qed

lemma split_loop_no_occurrence:
  "\<not> sublist sep s \<Longrightarrow> split_loop sep cur s = [cur @ s]"
proof (induction sep cur s rule: split_loop.induct)
  case (1 sep cur)
  show ?case by simp
next
  case (2 sep cur c cs)
  have np: "\<not> prefix sep (c # cs)" and ns: "\<not> sublist sep cs"
    using 2(3) by (simp_all add: sublist_Cons_right)
  have "split_loop sep cur (c # cs) = split_loop sep (cur @ [c]) cs"
    using np by simp
  moreover have "split_loop sep (cur @ [c]) cs = [(cur @ [c]) @ cs]"
    using np ns by (intro 2(2)) simp_all
  ultimately show ?case by simp
qed


lemma split_loop_no_sep:
  assumes "sep \<noteq> []"
  shows "x \<in> set (split_loop sep [] s) \<Longrightarrow> \<not> sublist sep x"
proof (induction s arbitrary: x rule: length_induct)
  case (1 s)
  show ?case
  proof (cases s)
    case Nil
    then have "x = []" using 1(2) by simp
    then show ?thesis using assms by simp
  next
    case (Cons c cs)
    show ?thesis
    proof (cases "prefix sep (c # cs)")
      case True
      let ?rest = "drop (length sep) (c # cs)"
      have "length ?rest < length s"
        using assms Cons by (cases sep) simp_all
      then have ih: "\<And>y. y \<in> set (split_loop sep [] ?rest) \<Longrightarrow> \<not> sublist sep y"
        using 1(1) by blast
      have "split_loop sep [] s = [] # split_loop sep [] ?rest"
        using True assms Cons by simp
      then have "x = [] \<or> x \<in> set (split_loop sep [] ?rest)"
        using 1(2) by simp
      then show ?thesis using ih assms by auto
    next
      case False
      let ?r = "split_loop sep [] cs"
      have "length cs < length s" using Cons by simp
      then have ih: "\<And>y. y \<in> set ?r \<Longrightarrow> \<not> sublist sep y"
        using 1(1) by blast
      obtain h t where r: "?r = h # t"
        using split_loop_nonempty [of sep "[]" cs] by (cases ?r) simp_all
      have "split_loop sep [] s = split_loop sep [c] cs"
        using False Cons by simp
      also have "\<dots> = ([c] @ hd ?r) # tl ?r"
        by (rule split_loop_acc)
      finally have eq: "split_loop sep [] s = (c # h) # t"
        using r by simp
      have "prefix h cs"
        using hd_split_loop_prefix [of sep cs] r by simp
      then have "prefix (c # h) (c # cs)" by simp
      then have "\<not> prefix sep (c # h)"
        using False prefix_order.trans by blast
      moreover have "\<not> sublist sep h" using ih r by simp
      ultimately have "\<not> sublist sep (c # h)" by (simp add: sublist_Cons_right)
      moreover have "\<And>y. y \<in> set t \<Longrightarrow> \<not> sublist sep y" using ih r by simp
      ultimately show ?thesis using eq 1(2) by auto
    qed
  qed
qed

lemma split_loop_first:
  assumes "sep \<noteq> []" and "\<not> sublist sep (q @ butlast sep)"
  shows "split_loop sep cur (q @ sep @ rest) = (cur @ q) # split_loop sep [] rest"
  using assms(2)
proof (induction q arbitrary: cur)
  case Nil
  obtain c cs where sep: "sep = c # cs" using assms(1) by (cases sep) simp_all
  have "prefix sep (c # cs @ rest)" using sep by simp
  then have "split_loop sep cur (c # cs @ rest)
      = cur # split_loop sep [] (drop (length sep) (c # cs @ rest))"
    using assms(1) by (simp del: drop_Suc_Cons)
  moreover have "drop (length sep) (c # cs @ rest) = rest" using sep by simp
  ultimately show ?case using sep by simp
next
  case (Cons a q)
  have "(butlast sep @ [last sep]) @ rest = butlast sep @ (last sep # rest)" by simp
  then have tail: "sep @ rest = butlast sep @ (last sep # rest)"
    by (simp only: append_butlast_last_id [OF assms(1)])
  have np: "\<not> prefix sep (a # q @ sep @ rest)"
  proof
    assume p: "prefix sep (a # q @ sep @ rest)"
    have "a # q @ sep @ rest = ((a # q) @ butlast sep) @ (last sep # rest)"
      using tail by simp
    then have "prefix ((a # q) @ butlast sep) (a # q @ sep @ rest)"
      by (rule prefixI)
    moreover have "length sep \<le> length ((a # q) @ butlast sep)" by simp
    ultimately have "prefix sep ((a # q) @ butlast sep)"
      using p by (rule prefix_length_prefix [rotated])
    then have "sublist sep ((a # q) @ butlast sep)" by (rule prefix_imp_sublist)
    then show False using Cons.prems by simp
  qed
  have "\<not> sublist sep (q @ butlast sep)"
    using Cons.prems by (simp add: sublist_Cons_right)
  then have "split_loop sep (cur @ [a]) (q @ sep @ rest)
      = ((cur @ [a]) @ q) # split_loop sep [] rest"
    by (rule Cons.IH)
  moreover have "split_loop sep cur ((a # q) @ sep @ rest)
      = split_loop sep (cur @ [a]) (q @ sep @ rest)"
    using np by simp
  ultimately show ?case by simp
qed


lemma fold_append_filter:
  "fold (\<lambda>x acc. if P x then acc @ [x] else acc) xs acc = acc @ filter P xs"
  by (induction xs arbitrary: acc) simp_all

lemma find_quotes_filter:
  "find_quotes batch =
     filter (\<lambda>q. startswith q [dquote] \<and> endswith q (dquote # '' - Alan Watts''))
       (str_split batch [newline, newline])"
  unfolding find_quotes_def Let_def by (simp only: fold_append_filter append_Nil)

lemma suffix_last: "suffix xs q \<Longrightarrow> xs \<noteq> [] \<Longrightarrow> last q = last xs"
  by (auto simp: suffix_def)

lemma quote_no_boundary:
  assumes "\<not> sublist [newline, newline] q"
    and "endswith q (dquote # '' - Alan Watts'')"
  shows "\<not> sublist [newline, newline] (q @ butlast [newline, newline])"
proof
  assume "sublist [newline, newline] (q @ butlast [newline, newline])"
  then have "sublist [newline, newline] (q @ [newline])" by simp
  then have "suffix [newline, newline] (q @ [newline])"
    using assms(1) by (simp only: sublist_snoc) blast
  then have "suffix [newline] q" by simp
  then have "last q = newline" using suffix_last by fastforce
  moreover have "last q = CHR ''s''"
    using assms(2) suffix_last [of "dquote # '' - Alan Watts''" q]
    by (simp add: endswith_def)
  ultimately show False by simp
qed

lemma split_loop_join:
  assumes "sep \<noteq> []"
  shows "qs \<noteq> [] \<Longrightarrow> (\<And>q. q \<in> set qs \<Longrightarrow> \<not> sublist sep (q @ butlast sep))
    \<Longrightarrow> split_loop sep [] (str_join sep qs) = qs"
proof (induction qs)
  case Nil
  then show ?case by simp
next
  case (Cons q qs)
  have q: "\<not> sublist sep (q @ butlast sep)" using Cons.prems(2) by simp
  show ?case
  proof (cases "qs = []")
    case True
    have "\<not> sublist sep q"
      using q by (metis sublist_append)
    then have "split_loop sep [] q = [[] @ q]" by (rule split_loop_no_occurrence)
    then show ?thesis using True by simp
  next
    case False
    have "split_loop sep [] (str_join sep qs) = qs"
      using False Cons.prems(2) by (intro Cons.IH) simp_all
    moreover have "split_loop sep [] (q @ sep @ str_join sep qs)
        = ([] @ q) # split_loop sep [] (str_join sep qs)"
      using assms q by (rule split_loop_first)
    ultimately show ?thesis using False by (simp add: str_join_Cons)
  qed
qed

lemma find_quotes_example:
  "find_quotes (dquote # ''hello'' @ dquote # '' - Alan Watts'' @ [newline, newline]
        @ ''not a quote'' @ [newline, newline] @ dquote # ''bye'' @ dquote # '' - Alan Watts'')
   = [dquote # ''hello'' @ dquote # '' - Alan Watts'', dquote # ''bye'' @ dquote # '' - Alan Watts'']"
  by (simp add: find_quotes_filter str_split_def startswith_def endswith_def suffix_to_prefix)

lemma find_quotes_idem:
  "find_quotes (str_join [newline, newline] (find_quotes s)) = find_quotes s"
proof (cases "find_quotes s = []")
  case True
  have "find_quotes [] = []"
    by (simp add: find_quotes_filter str_split_def startswith_def)
  then show ?thesis using True by simp
next
  case False
  let ?sep = "[newline, newline]"
  let ?P = "\<lambda>q. startswith q [dquote] \<and> endswith q (dquote # '' - Alan Watts'')"
  have mem: "?P q \<and> \<not> sublist ?sep q" if "q \<in> set (find_quotes s)" for q
  proof -
    have "q \<in> set (split_loop ?sep [] s)" and "?P q"
      using that by (simp_all add: find_quotes_filter str_split_def)
    then show ?thesis using split_loop_no_sep [of ?sep q s] by simp
  qed
  have "split_loop ?sep [] (str_join ?sep (find_quotes s)) = find_quotes s"
  proof (rule split_loop_join)
    show "?sep \<noteq> []" by simp
    show "find_quotes s \<noteq> []" by (rule False)
    show "\<not> sublist ?sep (q @ butlast ?sep)" if "q \<in> set (find_quotes s)" for q
      using mem [OF that] by (intro quote_no_boundary) simp_all
  qed
  then have "find_quotes (str_join ?sep (find_quotes s)) = filter ?P (find_quotes s)"
    by (simp only: find_quotes_filter [of "str_join ?sep (find_quotes s)"] str_split_def)
  moreover have "filter ?P (find_quotes s) = find_quotes s"
    using mem by (intro filter_True) blast
  ultimately show ?thesis by simp
qed

text \<open>
  The test of line 116 in terms of lists alone, and the filter one segment at a
  time: on a text without the two-newline boundary, and on a text whose first
  boundary comes right after \<open>q\<close>.
\<close>

lemma quote_test_iff:
  "startswith q [dquote] \<and> endswith q (dquote # '' - Alan Watts'')
   \<longleftrightarrow> (\<exists>body. q = dquote # body) \<and> (\<exists>pre. q = pre @ dquote # '' - Alan Watts'')"
  by (simp add: startswith_def endswith_def prefix_def suffix_def)

lemma find_quotes_single:
  assumes "\<not> sublist [newline, newline] s"
  shows "find_quotes s =
     (if (\<exists>body. s = dquote # body) \<and> (\<exists>pre. s = pre @ dquote # '' - Alan Watts'')
      then [s] else [])"
proof -
  have "split_loop [newline, newline] [] s = [[] @ s]"
    using assms by (rule split_loop_no_occurrence)
  then have "find_quotes s =
      filter (\<lambda>q. startswith q [dquote] \<and> endswith q (dquote # '' - Alan Watts'')) [s]"
    by (simp add: find_quotes_filter str_split_def)
  then show ?thesis by (simp only: quote_test_iff filter.simps)
qed

lemma find_quotes_first:
  assumes "\<not> sublist [newline, newline] (q @ [newline])"
  shows "find_quotes (q @ [newline, newline] @ rest) =
     (if (\<exists>body. q = dquote # body) \<and> (\<exists>pre. q = pre @ dquote # '' - Alan Watts'')
      then [q] else []) @ find_quotes rest"
proof -
  have "\<not> sublist [newline, newline] (q @ butlast [newline, newline])"
    using assms by simp
  then have "split_loop [newline, newline] [] (q @ [newline, newline] @ rest)
      = ([] @ q) # split_loop [newline, newline] [] rest"
    by (intro split_loop_first) simp_all
  then have "find_quotes (q @ [newline, newline] @ rest) =
      filter (\<lambda>q. startswith q [dquote] \<and> endswith q (dquote # '' - Alan Watts'')) [q]
      @ find_quotes rest"
    by (simp add: find_quotes_filter str_split_def)
  then show ?thesis by (simp only: quote_test_iff filter.simps)
qed

lemma leftmost_boundary:
  "sublist [newline, newline] s \<Longrightarrow>
   \<exists>q rest. s = q @ [newline, newline] @ rest \<and> \<not> sublist [newline, newline] (q @ [newline])"
proof (induction s)
  case Nil
  then show ?case by simp
next
  case (Cons c cs)
  show ?case
  proof (cases "prefix [newline, newline] (c # cs)")
    case True
    then obtain rest where "c # cs = [newline, newline] @ rest" by (auto simp: prefix_def)
    then have "c # cs = [] @ [newline, newline] @ rest
        \<and> \<not> sublist [newline, newline] ([] @ [newline])"
      by (simp add: sublist_Cons_right)
    then show ?thesis by blast
  next
    case False
    then have "sublist [newline, newline] cs"
      using Cons.prems sublist_Cons_right [of "[newline, newline]" c cs] by blast
    then obtain q rest where q: "cs = q @ [newline, newline] @ rest"
        and nq: "\<not> sublist [newline, newline] (q @ [newline])"
      using Cons.IH by blast
    have "prefix ((c # q) @ [newline]) (c # cs)"
      using q by simp
    then have "\<not> prefix [newline, newline] ((c # q) @ [newline])"
      using False prefix_order.trans by blast
    then have "\<not> sublist [newline, newline] ((c # q) @ [newline])"
      using nq by (simp add: sublist_Cons_right)
    moreover have "c # cs = (c # q) @ [newline, newline] @ rest"
      using q by simp
    ultimately show ?thesis by blast
  qed
qed

lemma find_quotes_member:
  assumes "x \<in> set (find_quotes s)"
  shows "\<not> sublist [newline, newline] x \<and> (\<exists>body. x = dquote # body)
     \<and> (\<exists>pre. x = pre @ dquote # '' - Alan Watts'')"
proof -
  have "x \<in> set (split_loop [newline, newline] [] s)"
    and "startswith x [dquote] \<and> endswith x (dquote # '' - Alan Watts'')"
    using assms by (simp_all add: find_quotes_filter str_split_def)
  then show ?thesis
    using split_loop_no_sep [of "[newline, newline]" x s] by (simp add: quote_test_iff)
qed

subsection \<open>Claims about the quote filter\<close>

text \<open>
  Claim C3.  The quote filter splits its input at the two-newline boundary and
  keeps a segment iff it begins with a double quote and ends with the suffix
  \<^verbatim>\<open>" - Alan Watts\<close>.  Stated without the model's own split and tests: a text
  without the boundary is one segment, kept iff it has the form \<open>dquote # body\<close>
  and the form \<open>pre @ suffix\<close>; a text whose leftmost boundary follows \<open>q\<close> gives
  \<open>q\<close>, kept on the same condition, followed by the quotes of the rest; every
  text with a boundary has such a leftmost one; and every quote returned is free
  of the boundary and has both forms.  On the input of the specification the
  result is the two quotes in order, and a segment with only the prefix or only
  the suffix is dropped.
\<close>

theorem find_quotes_keeps_matching_segments:
  "(\<not> sublist [newline, newline] s \<longrightarrow>
      find_quotes s =
        (if (\<exists>body. s = dquote # body) \<and> (\<exists>pre. s = pre @ dquote # '' - Alan Watts'')
         then [s] else []))
   \<and> (\<not> sublist [newline, newline] (q @ [newline]) \<longrightarrow>
      find_quotes (q @ [newline, newline] @ rest) =
        (if (\<exists>body. q = dquote # body) \<and> (\<exists>pre. q = pre @ dquote # '' - Alan Watts'')
         then [q] else []) @ find_quotes rest)
   \<and> (sublist [newline, newline] s \<longrightarrow>
      (\<exists>q rest. s = q @ [newline, newline] @ rest
         \<and> \<not> sublist [newline, newline] (q @ [newline])))
   \<and> (x \<in> set (find_quotes s) \<longrightarrow>
      \<not> sublist [newline, newline] x \<and> (\<exists>body. x = dquote # body)
      \<and> (\<exists>pre. x = pre @ dquote # '' - Alan Watts''))
   \<and> find_quotes (dquote # ''hello'' @ dquote # '' - Alan Watts'' @ [newline, newline]
        @ ''not a quote'' @ [newline, newline] @ dquote # ''bye'' @ dquote # '' - Alan Watts'')
     = [dquote # ''hello'' @ dquote # '' - Alan Watts'',
        dquote # ''bye'' @ dquote # '' - Alan Watts'']
   \<and> find_quotes (dquote # ''only the prefix'' @ [newline, newline]
        @ ''only the suffix'' @ dquote # '' - Alan Watts'') = []"
proof (intro conjI impI)
  assume "\<not> sublist [newline, newline] s"
  then show "find_quotes s =
        (if (\<exists>body. s = dquote # body) \<and> (\<exists>pre. s = pre @ dquote # '' - Alan Watts'')
         then [s] else [])"
    by (rule find_quotes_single)
next
  assume "\<not> sublist [newline, newline] (q @ [newline])"
  then show "find_quotes (q @ [newline, newline] @ rest) =
        (if (\<exists>body. q = dquote # body) \<and> (\<exists>pre. q = pre @ dquote # '' - Alan Watts'')
         then [q] else []) @ find_quotes rest"
    by (rule find_quotes_first)
next
  assume "sublist [newline, newline] s"
  then show "\<exists>q rest. s = q @ [newline, newline] @ rest
         \<and> \<not> sublist [newline, newline] (q @ [newline])"
    by (rule leftmost_boundary)
next
  assume "x \<in> set (find_quotes s)"
  then have m: "\<not> sublist [newline, newline] x \<and> (\<exists>body. x = dquote # body)
      \<and> (\<exists>pre. x = pre @ dquote # '' - Alan Watts'')"
    by (rule find_quotes_member)
  show "\<not> sublist [newline, newline] x" using m by blast
  show "\<exists>body. x = dquote # body" using m by blast
  show "\<exists>pre. x = pre @ dquote # '' - Alan Watts''" using m by blast
next
  show "find_quotes (dquote # ''hello'' @ dquote # '' - Alan Watts'' @ [newline, newline]
        @ ''not a quote'' @ [newline, newline] @ dquote # ''bye'' @ dquote # '' - Alan Watts'')
     = [dquote # ''hello'' @ dquote # '' - Alan Watts'',
        dquote # ''bye'' @ dquote # '' - Alan Watts'']"
    by (rule find_quotes_example)
next
  show "find_quotes (dquote # ''only the prefix'' @ [newline, newline]
        @ ''only the suffix'' @ dquote # '' - Alan Watts'') = []"
    by (simp add: find_quotes_filter str_split_def startswith_def endswith_def suffix_to_prefix)
qed

theorem find_quotes_keeps_matching_segments_witness:
  "find_quotes (dquote # ''a'' @ dquote # '' - Alan Watts'') = [dquote # ''a'' @ dquote # '' - Alan Watts'']
   \<and> find_quotes (dquote # ''a'') = []
   \<and> find_quotes (''a'' @ dquote # '' - Alan Watts'') = []
   \<and> find_quotes ((dquote # ''a'' @ dquote # '' - Alan Watts'') @ [newline, newline]
         @ dquote # ''b'')
       = [dquote # ''a'' @ dquote # '' - Alan Watts'']
   \<and> find_quotes ((dquote # ''b'') @ [newline, newline]
         @ dquote # ''a'' @ dquote # '' - Alan Watts'')
       = [dquote # ''a'' @ dquote # '' - Alan Watts'']
   \<and> (\<exists>q rest. ''x'' @ [newline, newline] @ ''y'' = q @ [newline, newline] @ rest
         \<and> \<not> sublist [newline, newline] (q @ [newline]))"
proof (intro conjI)
  let ?A = "dquote # ''a'' @ dquote # '' - Alan Watts''"
  have a: "find_quotes ?A = [?A]"
    using find_quotes_keeps_matching_segments [of ?A]
    by (simp add: sublist_code suffix_def [symmetric] suffix_to_prefix)
  show "find_quotes ?A = [?A]" by (rule a)
  have b: "find_quotes (dquote # ''a'') = []"
    using find_quotes_keeps_matching_segments [of "dquote # ''a''"]
    by (simp add: sublist_code suffix_def [symmetric] suffix_to_prefix)
  show "find_quotes (dquote # ''a'') = []" by (rule b)
  show "find_quotes (''a'' @ dquote # '' - Alan Watts'') = []"
    using find_quotes_keeps_matching_segments [of "''a'' @ dquote # '' - Alan Watts''"]
    by (simp add: sublist_code suffix_def [symmetric] suffix_to_prefix)
  have b': "find_quotes (dquote # ''b'') = []"
    using find_quotes_keeps_matching_segments [of "dquote # ''b''"]
    by (simp add: sublist_code suffix_def [symmetric] suffix_to_prefix)
  show "find_quotes (?A @ [newline, newline] @ dquote # ''b'') = [?A]"
    using find_quotes_keeps_matching_segments [of _ ?A "dquote # ''b''"] b'
    by (simp add: sublist_code suffix_def [symmetric] suffix_to_prefix)
  show "find_quotes ((dquote # ''b'') @ [newline, newline] @ ?A) = [?A]"
    using find_quotes_keeps_matching_segments [of _ "dquote # ''b''" ?A] a
    by (simp add: sublist_code suffix_def [symmetric] suffix_to_prefix)
  show "\<exists>q rest. ''x'' @ [newline, newline] @ ''y'' = q @ [newline, newline] @ rest
         \<and> \<not> sublist [newline, newline] (q @ [newline])"
    using find_quotes_keeps_matching_segments [of "''x'' @ [newline, newline] @ ''y''"]
    by (simp add: sublist_code)
qed

text \<open>
  Claim C10.  The quote filter is idempotent on its own output: joining the quotes
  it returns with the two-newline boundary and filtering again gives the same
  list.  No retained segment contains the boundary, and none ends in a newline,
  so the join is split at exactly the inserted boundaries.
\<close>

theorem find_quotes_idempotent:
  "find_quotes (str_join [newline, newline] (find_quotes s)) = find_quotes s"
  by (rule find_quotes_idem)

theorem find_quotes_idempotent_witness:
  "find_quotes (str_join [newline, newline]
     (find_quotes (dquote # ''a'' @ dquote # '' - Alan Watts'' @ [newline, newline] @ ''x''
        @ [newline, newline] @ dquote # ''b'' @ dquote # '' - Alan Watts'')))
   = [dquote # ''a'' @ dquote # '' - Alan Watts'', dquote # ''b'' @ dquote # '' - Alan Watts'']"
  using find_quotes_idempotent
    [of "dquote # ''a'' @ dquote # '' - Alan Watts'' @ [newline, newline] @ ''x''
        @ [newline, newline] @ dquote # ''b'' @ dquote # '' - Alan Watts''"]
  by (simp add: find_quotes_filter str_split_def startswith_def endswith_def suffix_to_prefix)

section \<open>What get_batches and the read loop do\<close>

text \<open>
  The name \<^verbatim>\<open>context\<close> is bound neither at module scope nor among the builtins,
  so the first round of \<^verbatim>\<open>get_batches\<close> stops before the sampler; with no round at
  all the \<^verbatim>\<open>return\<close> reads \<^verbatim>\<open>batches\<close> unbound.
\<close>

lemma load_global_context: "load_global ''context'' = Inl (NameError ''context'')"
  by (simp add: load_global_def module_globals_def builtins_def)

lemma sample_round_fails:
  "sample_round enc output context_tokens batch_size generated w = (Inl (NameError ''context''), w)"
  by (simp add: sample_round_def load_global_context)

lemma rounds_fail:
  "0 < k \<Longrightarrow> rounds enc output context_tokens batch_size k st w = (Inl (NameError ''context''), w)"
proof (cases k)
  case 0
  assume "0 < k"
  with 0 show ?thesis by simp
next
  case (Suc j)
  obtain g b where "st = (g, b)" by (cases st)
  then show ?thesis using Suc by (simp add: sample_round_fails)
qed

lemma get_batches_result:
  "get_batches prompt enc nsamples batch_size output w =
     (if batch_size = 0 then (Inl ZeroDivisionError, w)
      else if 1 \<le> nsamples div batch_size then (Inl (NameError ''context''), w)
      else (Inl (UnboundLocalError ''batches''), w))"
proof (cases "batch_size = 0")
  case True
  then show ?thesis by (simp add: get_batches_def py_floordiv_def)
next
  case nz: False
  show ?thesis
  proof (cases "1 \<le> nsamples div batch_size")
    case True
    then have "0 < nat (nsamples div batch_size)" by simp
    then have "rounds enc output (encode enc prompt) batch_size (nat (nsamples div batch_size))
        (0, None) w = (Inl (NameError ''context''), w)"
      by (rule rounds_fail)
    then show ?thesis using nz True by (simp add: get_batches_def py_floordiv_def)
  next
    case False
    then have "nat (nsamples div batch_size) = 0" by simp
    then show ?thesis using nz False
      by (simp add: get_batches_def py_floordiv_def load_local_def)
  qed
qed

text \<open>The inner loop of the interactive mode, one pass at a time.\<close>

lemma read_nonempty_nonempty: "raw_text \<noteq> [] \<Longrightarrow> read_nonempty raw_text w = (Inr raw_text, w)"
  by (simp add: read_nonempty.simps [of raw_text w])

lemma read_nonempty_eof:
  "stdin w = [] \<Longrightarrow> read_nonempty [] w =
     (Inl EOFError, w\<lparr>stdout := stdout w @ [''Prompt should not be empty!'', ''Model prompt >>> '']\<rparr>)"
  by (simp add: read_nonempty.simps [of "[]" w] input_py_def print_py_def)

lemma read_nonempty_line:
  "stdin w = l # ls \<Longrightarrow> read_nonempty [] w =
     read_nonempty l (w\<lparr>stdin := ls,
       stdout := stdout w @ [''Prompt should not be empty!'', ''Model prompt >>> '']\<rparr>)"
  by (simp add: read_nonempty.simps [of "[]" w] input_py_def print_py_def)

lemma read_nonempty_empties:
  "line \<noteq> [] \<Longrightarrow> stdin w = replicate k [] @ line # rest \<Longrightarrow>
   read_nonempty [] w =
     (Inr line, w\<lparr>stdin := rest,
        stdout := stdout w
          @ concat (replicate (Suc k) [''Prompt should not be empty!'', ''Model prompt >>> ''])\<rparr>)"
proof (induction k arbitrary: w)
  case 0
  then show ?case by (simp add: read_nonempty_line read_nonempty_nonempty)
next
  case (Suc k)
  let ?w = "w\<lparr>stdin := replicate k [] @ line # rest,
       stdout := stdout w @ [''Prompt should not be empty!'', ''Model prompt >>> '']\<rparr>"
  have "read_nonempty [] w = read_nonempty [] ?w"
    using Suc.prems(2) by (simp add: read_nonempty_line)
  moreover have "read_nonempty [] ?w =
     (Inr line, ?w\<lparr>stdin := rest,
        stdout := stdout ?w
          @ concat (replicate (Suc k) [''Prompt should not be empty!'', ''Model prompt >>> ''])\<rparr>)"
    using Suc.prems(1) by (intro Suc.IH) simp_all
  ultimately show ?case by simp
qed


lemma read_prompt_empties:
  assumes "line \<noteq> []" and "stdin w = replicate k [] @ line # rest"
  shows "read_prompt w =
     (Inr line, w\<lparr>stdin := rest,
        stdout := stdout w @ ''Model prompt >>> ''
          # concat (replicate k [''Prompt should not be empty!'', ''Model prompt >>> ''])\<rparr>)"
proof (cases k)
  case 0
  then show ?thesis using assms
    by (simp add: read_prompt_def input_py_def read_nonempty_nonempty)
next
  case (Suc j)
  let ?w = "w\<lparr>stdin := replicate j [] @ line # rest, stdout := stdout w @ [''Model prompt >>> '']\<rparr>"
  have "read_prompt w = read_nonempty [] ?w"
    using assms(2) Suc by (simp add: read_prompt_def input_py_def)
  moreover have "read_nonempty [] ?w =
     (Inr line, ?w\<lparr>stdin := rest,
        stdout := stdout ?w
          @ concat (replicate (Suc j) [''Prompt should not be empty!'', ''Model prompt >>> ''])\<rparr>)"
    using assms(1) by (intro read_nonempty_empties) simp_all
  ultimately show ?thesis using Suc by simp
qed



lemma read_nonempty_frame:
  "sampler_runs (snd (read_nonempty raw_text w)) = sampler_runs w
   \<and> fetched (snd (read_nonempty raw_text w)) = fetched w"
proof (induction raw_text w rule: read_nonempty.induct)
  case (1 raw_text w)
  show ?case
  proof (cases "raw_text = []")
    case False
    then show ?thesis by (simp add: read_nonempty_nonempty)
  next
    case True
    show ?thesis
    proof (cases "stdin w")
      case Nil
      then show ?thesis using True by (simp add: read_nonempty_eof)
    next
      case (Cons l ls)
      let ?w = "print_py ''Prompt should not be empty!'' w"
      let ?w' = "?w\<lparr>stdin := ls, stdout := stdout ?w @ [''Model prompt >>> '']\<rparr>"
      have inp: "input_py ''Model prompt >>> '' ?w = (Inr l, ?w')"
        using Cons by (simp add: input_py_def print_py_def)
      have "sampler_runs (snd (read_nonempty l ?w')) = sampler_runs ?w'
          \<and> fetched (snd (read_nonempty l ?w')) = fetched ?w'"
        using 1 [OF True inp [symmetric] refl] .
      then show ?thesis using True Cons
        by (simp add: read_nonempty_line print_py_def)
    qed
  qed
qed

lemma read_prompt_frame:
  "sampler_runs (snd (read_prompt w)) = sampler_runs w
   \<and> fetched (snd (read_prompt w)) = fetched w"
proof (cases "stdin w")
  case Nil
  then show ?thesis by (simp add: read_prompt_def input_py_def)
next
  case (Cons l ls)
  let ?w = "w\<lparr>stdin := ls, stdout := stdout w @ [''Model prompt >>> '']\<rparr>"
  have "read_prompt w = read_nonempty l ?w"
    using Cons by (simp add: read_prompt_def input_py_def)
  then show ?thesis using read_nonempty_frame [of l ?w] by simp
qed

text \<open>
  The interactive loop is entered with \<^verbatim>\<open>prompt\<close> unbound: its first pass ends either
  at the read or at the argument list of line 89.
\<close>

lemma interact_loop_unbound:
  "interact_loop enc nsamples batch_size output None w =
     (case read_prompt w of
        (Inl err, w1) \<Rightarrow> (Inl err, w1)
      | (Inr raw_text, w1) \<Rightarrow> (Inl (UnboundLocalError ''prompt''), w1))"
  by (simp add: interact_loop.simps [of enc nsamples batch_size "output" None w] load_local_def
        split: prod.splits sum.splits)

lemma interact_loop_raises:
  "\<exists>err. interact_loop enc nsamples batch_size output None w = (Inl err, snd (read_prompt w))"
  by (cases "read_prompt w") (auto simp: interact_loop_unbound split: sum.splits)

lemma interact_model_url:
  assumes "validate_batch (nsamples_arg a) (batch_size_arg a) = Inr batch_size"
    and "validate_length (length_arg a) (n_ctx E) = Inr len"
    and "prompt_url_arg a = Some (c # cs)"
  shows "interact_model E a w =
     ((if 1 \<le> nsamples_arg a div batch_size then Inl (NameError ''context'')
       else Inl (UnboundLocalError ''batches'')),
      w\<lparr>fetched := fetched w @ [c # cs]\<rparr>)"
proof -
  have "batch_size \<noteq> 0"
    using assms(1) by (auto simp: validate_batch_def py_mod_def Let_def split: if_splits option.splits)
  then show ?thesis using assms
    by (simp add: interact_model_def Let_def get_batches_result)
qed

lemma interact_model_interactive:
  assumes "validate_batch (nsamples_arg a) (batch_size_arg a) = Inr batch_size"
    and "validate_length (length_arg a) (n_ctx E) = Inr len"
    and "prompt_url_arg a = None \<or> prompt_url_arg a = Some []"
  shows "interact_model E a w =
     interact_loop (get_encoder E) (nsamples_arg a) batch_size (sample_sequence E len) None w"
  using assms by (auto simp: interact_model_def Let_def)

lemma interact_model_no_sampling:
  "sampler_runs (snd (interact_model E a w)) = sampler_runs w"
proof (cases "validate_batch (nsamples_arg a) (batch_size_arg a)")
  case (Inl e)
  then show ?thesis by (simp add: interact_model_def)
next
  case bs: (Inr batch_size)
  show ?thesis
  proof (cases "validate_length (length_arg a) (n_ctx E)")
    case (Inl e)
    then show ?thesis using bs by (simp add: interact_model_def Let_def)
  next
    case len: (Inr len)
    show ?thesis
    proof (cases "\<exists>c cs. prompt_url_arg a = Some (c # cs)")
      case True
      then obtain c cs where "prompt_url_arg a = Some (c # cs)" by blast
      then show ?thesis using interact_model_url [OF bs len] by simp
    next
      case False
      have "prompt_url_arg a = None \<or> prompt_url_arg a = Some []"
      proof (cases "prompt_url_arg a")
        case None
        then show ?thesis by simp
      next
        case (Some u)
        then have "u = []" using False by (cases u) simp_all
        then show ?thesis using Some by simp
      qed
      then have "interact_model E a w =
          interact_loop (get_encoder E) (nsamples_arg a) batch_size (sample_sequence E len) None w"
        by (rule interact_model_interactive [OF bs len])
      then show ?thesis
        using interact_loop_raises [of "get_encoder E" "nsamples_arg a" batch_size
            "sample_sequence E len" w] read_prompt_frame [of w]
        by auto
    qed
  qed
qed


lemma interact_model_raises: "\<exists>err. fst (interact_model E a w) = Inl err"
proof (cases "validate_batch (nsamples_arg a) (batch_size_arg a)")
  case (Inl e)
  then show ?thesis by (simp add: interact_model_def)
next
  case bs: (Inr batch_size)
  show ?thesis
  proof (cases "validate_length (length_arg a) (n_ctx E)")
    case (Inl e)
    then show ?thesis using bs by (simp add: interact_model_def Let_def)
  next
    case len: (Inr len)
    show ?thesis
    proof (cases "\<exists>c cs. prompt_url_arg a = Some (c # cs)")
      case True
      then obtain c cs where "prompt_url_arg a = Some (c # cs)" by blast
      then show ?thesis using interact_model_url [OF bs len] by simp
    next
      case False
      have "prompt_url_arg a = None \<or> prompt_url_arg a = Some []"
      proof (cases "prompt_url_arg a")
        case None
        then show ?thesis by simp
      next
        case (Some u)
        then have "u = []" using False by (cases u) simp_all
        then show ?thesis using Some by simp
      qed
      then have "interact_model E a w =
          interact_loop (get_encoder E) (nsamples_arg a) batch_size (sample_sequence E len) None w"
        by (rule interact_model_interactive [OF bs len])
      then show ?thesis
        using interact_loop_raises [of "get_encoder E" "nsamples_arg a" batch_size
            "sample_sequence E len" w]
        by auto
    qed
  qed
qed

section \<open>Claims about generation, validation and the interaction loop\<close>

lemma validate_batch_nonzero: "validate_batch nsamples bo = Inr bs \<Longrightarrow> bs \<noteq> 0"
  by (auto simp: validate_batch_def py_mod_def Let_def split: if_splits option.splits)

text \<open>
  Claim C2, as stated, fails for a batch size of zero: there line 99 divides by
  zero before the feed dictionary of line 101 is reached, and the exception is
  not an unbound-name error.
\<close>

theorem get_batches_zero_batch_counterexample:
  "get_batches ''hi'' byte_encoder 1 0 echo_output
     \<lparr>stdin = [], stdout = [], fetched = [], sampler_runs = 0\<rparr>
   = (Inl ZeroDivisionError, \<lparr>stdin = [], stdout = [], fetched = [], sampler_runs = 0\<rparr>)
   \<and> \<not> is_name_error ZeroDivisionError"
  by (simp add: get_batches_def py_floordiv_def)

text \<open>
  Claim C2, amended.  Every call of \<^verbatim>\<open>get_batches\<close> raises before the sampler runs
  and leaves the world as it was.  With a batch size other than zero the
  exception is an unbound-name error: \<open>NameError\<close> for \<^verbatim>\<open>context\<close>, from the feed
  dictionary of line 101, when there is at least one round, and
  \<open>UnboundLocalError\<close> for \<^verbatim>\<open>batches\<close>, from the return, when there is none.  With
  a batch size of zero it is \<open>ZeroDivisionError\<close>.  The batch size that passes
  line 46 is never zero, and no run of \<^verbatim>\<open>interact_model\<close>, in either mode, runs the
  sampler or returns normally.
\<close>

theorem get_batches_raises_before_sampling:
  "(batch_size \<noteq> 0 \<longrightarrow> 1 \<le> nsamples div batch_size \<longrightarrow>
      get_batches prompt enc nsamples batch_size output w = (Inl (NameError ''context''), w))
   \<and> (batch_size \<noteq> 0 \<longrightarrow> nsamples div batch_size < 1 \<longrightarrow>
      get_batches prompt enc nsamples batch_size output w = (Inl (UnboundLocalError ''batches''), w))
   \<and> (batch_size = 0 \<longrightarrow>
      get_batches prompt enc nsamples batch_size output w = (Inl ZeroDivisionError, w))
   \<and> (batch_size \<noteq> 0 \<longrightarrow>
      (\<exists>err. get_batches prompt enc nsamples batch_size output w = (Inl err, w)
         \<and> is_name_error err))
   \<and> (validate_batch nsamples' bo = Inr batch_size' \<longrightarrow> batch_size' \<noteq> 0)
   \<and> sampler_runs (snd (interact_model E a w')) = sampler_runs w'
   \<and> (\<exists>err. fst (interact_model E a w') = Inl err)"
proof (intro conjI impI)
  show "\<exists>err. get_batches prompt enc nsamples batch_size output w = (Inl err, w)
         \<and> is_name_error err" if "batch_size \<noteq> 0"
    using that by (simp add: get_batches_result)
  show "batch_size' \<noteq> 0" if "validate_batch nsamples' bo = Inr batch_size'"
    using that by (rule validate_batch_nonzero)
  show "sampler_runs (snd (interact_model E a w')) = sampler_runs w'"
    by (rule interact_model_no_sampling)
  show "\<exists>err. fst (interact_model E a w') = Inl err"
    by (rule interact_model_raises)
qed (simp_all add: get_batches_result)

theorem get_batches_raises_before_sampling_witness:
  "(\<forall>enc out w. get_batches ''hi'' enc 4 2 out w = (Inl (NameError ''context''), w))
   \<and> (\<forall>enc out w. get_batches ''hi'' enc 0 1 out w = (Inl (UnboundLocalError ''batches''), w))
   \<and> (\<forall>enc out w. get_batches ''hi'' enc 1 0 out w = (Inl ZeroDivisionError, w))"
proof (intro conjI allI)
  fix enc :: encoder and out :: "nat \<Rightarrow> int list list \<Rightarrow> int list list" and w :: world
  show "get_batches ''hi'' enc 4 2 out w = (Inl (NameError ''context''), w)"
    using get_batches_raises_before_sampling [of 2 4 "''hi''" enc out w] by simp
  show "get_batches ''hi'' enc 0 1 out w = (Inl (UnboundLocalError ''batches''), w)"
    using get_batches_raises_before_sampling [of 1 0 "''hi''" enc out w] by simp
  show "get_batches ''hi'' enc 1 0 out w = (Inl ZeroDivisionError, w)"
    using get_batches_raises_before_sampling [of 0 1 "''hi''" enc out w] by simp
qed

text \<open>
  Claim C6.  When the sample count is not a multiple of the batch size, the
  program fails at the assertion of line 46 (\<open>AssertionError\<close> is the Python
  exception behind the specification's \<open>InvalidArgument\<close>) with the world
  untouched: nothing fetched, read, printed or sampled.  When it is a multiple the
  check passes with that batch size, and an absent batch size counts as 1.
\<close>

theorem batch_size_must_divide_nsamples:
  "batch_size \<noteq> 0 \<Longrightarrow>
   (nsamples mod batch_size \<noteq> 0 \<longrightarrow>
      interact_model E (a\<lparr>nsamples_arg := nsamples, batch_size_arg := Some batch_size\<rparr>) w
        = (Inl AssertionError, w))
   \<and> (nsamples mod batch_size = 0 \<longrightarrow>
        validate_batch nsamples (Some batch_size) = Inr batch_size)
   \<and> validate_batch nsamples None = Inr 1"
  by (simp add: interact_model_def validate_batch_def py_mod_def)

theorem batch_size_must_divide_nsamples_witness:
  "(\<forall>E a w. interact_model E (a\<lparr>nsamples_arg := 3, batch_size_arg := Some 2\<rparr>) w
       = (Inl AssertionError, w))
   \<and> validate_batch 4 (Some 2) = Inr 2"
  using batch_size_must_divide_nsamples [of 2 3] batch_size_must_divide_nsamples [of 2 4]
  by simp

text \<open>
  Claim C7.  A requested length above the context window fails with
  \<open>ValueError\<close> (the specification's \<open>InvalidArgument\<close>), also for the program as
  a whole once the batch check has passed; an absent length becomes the window
  floor-divided by two; a length up to the window is accepted unchanged.
\<close>

theorem length_checked_against_window:
  "(hparams_n_ctx < L \<longrightarrow> validate_length (Some L) hparams_n_ctx = Inl (ValueError hparams_n_ctx))
   \<and> validate_length None hparams_n_ctx = Inr (hparams_n_ctx div 2)
   \<and> (L \<le> hparams_n_ctx \<longrightarrow> validate_length (Some L) hparams_n_ctx = Inr L)
   \<and> (validate_batch (nsamples_arg a) (batch_size_arg a) = Inr bs \<longrightarrow> length_arg a = Some L
        \<longrightarrow> n_ctx E < L \<longrightarrow> interact_model E a w = (Inl (ValueError (n_ctx E)), w))"
  by (simp add: validate_length_def interact_model_def Let_def)

theorem length_checked_against_window_witness:
  "validate_length (Some 2000) 1024 = Inl (ValueError 1024)
   \<and> validate_length None 1024 = Inr 512
   \<and> validate_length (Some 1024) 1024 = Inr 1024
   \<and> (\<forall>E w. interact_model (E\<lparr>n_ctx := 1024\<rparr>)
         \<lparr>model_name_arg = ''117M'', nsamples_arg = 1, batch_size_arg = Some 1,
          length_arg = Some 2000, prompt_url_arg = None, author_arg = ''Alan Watts''\<rparr> w
        = (Inl (ValueError 1024), w))"
proof (intro conjI allI)
  show "validate_length (Some 2000) 1024 = Inl (ValueError 1024)"
    using length_checked_against_window [of 1024 2000] by simp
  show "validate_length None 1024 = Inr 512"
    using length_checked_against_window [of 1024] by simp
  show "validate_length (Some 1024) 1024 = Inr 1024"
    using length_checked_against_window [of 1024 1024] by simp
  fix E :: env and w :: world
  have "validate_batch 1 (Some 1) = Inr 1"
    by (simp add: validate_batch_def py_mod_def)
  then show "interact_model (E\<lparr>n_ctx := 1024\<rparr>)
         \<lparr>model_name_arg = ''117M'', nsamples_arg = 1, batch_size_arg = Some 1,
          length_arg = Some 2000, prompt_url_arg = None, author_arg = ''Alan Watts''\<rparr> w
        = (Inl (ValueError 1024), w)"
    using length_checked_against_window [of 1024 2000
        "\<lparr>model_name_arg = ''117M'', nsamples_arg = 1, batch_size_arg = Some 1,
          length_arg = Some 2000, prompt_url_arg = None, author_arg = ''Alan Watts''\<rparr>"
        1 "E\<lparr>n_ctx := 1024\<rparr>" w]
    by simp
qed



text \<open>
  Claim C1 fails on the code.  In interactive mode with a valid configuration,
  after any number of empty lines, entering a line that is not empty does not
  lead to generation on that text: line 89 passes the unbound local \<^verbatim>\<open>prompt\<close>
  instead of \<^verbatim>\<open>raw_text\<close>, and the program stops with \<open>UnboundLocalError\<close> before
  \<^verbatim>\<open>get_batches\<close> is entered; nothing but the prompts has been printed.
\<close>

theorem interactive_prompt_unbound:
  assumes "validate_batch (nsamples_arg a) (batch_size_arg a) = Inr bs"
    and "validate_length (length_arg a) (n_ctx E) = Inr len"
    and "prompt_url_arg a = None"
    and "line \<noteq> []"
    and "stdin w = replicate k [] @ line # rest"
  shows "interact_model E a w =
     (Inl (UnboundLocalError ''prompt''),
      w\<lparr>stdin := rest,
        stdout := stdout w @ ''Model prompt >>> ''
          # concat (replicate k [''Prompt should not be empty!'', ''Model prompt >>> ''])\<rparr>)"
proof -
  have "interact_model E a w =
      interact_loop (get_encoder E) (nsamples_arg a) bs (sample_sequence E len) None w"
    using assms(1-3) by (intro interact_model_interactive) simp_all
  then show ?thesis
    using read_prompt_empties [OF assms(4,5)] by (simp add: interact_loop_unbound)
qed

theorem interactive_prompt_unbound_witness:
  "\<forall>E. interact_model E
     \<lparr>model_name_arg = ''117M'', nsamples_arg = 1, batch_size_arg = Some 1,
      length_arg = None, prompt_url_arg = None, author_arg = ''Alan Watts''\<rparr>
     \<lparr>stdin = [''hello''], stdout = [], fetched = [], sampler_runs = 0\<rparr>
   = (Inl (UnboundLocalError ''prompt''),
      \<lparr>stdin = [], stdout = [''Model prompt >>> ''], fetched = [], sampler_runs = 0\<rparr>)"
proof
  fix E :: env
  have "validate_batch 1 (Some 1) = Inr 1"
    by (simp add: validate_batch_def py_mod_def)
  moreover have "validate_length None (n_ctx E) = Inr (n_ctx E div 2)"
    by (simp add: validate_length_def)
  ultimately show "interact_model E
     \<lparr>model_name_arg = ''117M'', nsamples_arg = 1, batch_size_arg = Some 1,
      length_arg = None, prompt_url_arg = None, author_arg = ''Alan Watts''\<rparr>
     \<lparr>stdin = [''hello''], stdout = [], fetched = [], sampler_runs = 0\<rparr>
   = (Inl (UnboundLocalError ''prompt''),
      \<lparr>stdin = [], stdout = [''Model prompt >>> ''], fetched = [], sampler_runs = 0\<rparr>)"
    using interactive_prompt_unbound [of
        "\<lparr>model_name_arg = ''117M'', nsamples_arg = 1, batch_size_arg = Some 1,
          length_arg = None, prompt_url_arg = None, author_arg = ''Alan Watts''\<rparr>"
        1 E "n_ctx E div 2" "''hello''"
        "\<lparr>stdin = [''hello''], stdout = [], fetched = [], sampler_runs = 0\<rparr>" 0 "[]"]
    by simp
qed

text \<open>
  Claim C4 fails on the code.  The attribution suffix is the literal
  \<^verbatim>\<open>" - Alan Watts\<close> whatever the argument \<^verbatim>\<open>author\<close>: a segment attributed to Bob is
  dropped, one attributed to Alan Watts is kept, and \<^verbatim>\<open>interact_model\<close> behaves the
  same for every value of the argument.
\<close>

theorem find_quotes_ignores_author:
  "find_quotes (dquote # ''hi'' @ dquote # '' - Bob'') = []
   \<and> find_quotes (dquote # ''hi'' @ dquote # '' - Alan Watts'')
       = [dquote # ''hi'' @ dquote # '' - Alan Watts'']
   \<and> interact_model E (a\<lparr>author_arg := ''Bob''\<rparr>) w = interact_model E a w"
proof (intro conjI)
  show "find_quotes (dquote # ''hi'' @ dquote # '' - Bob'') = []"
    by (simp add: find_quotes_filter str_split_def startswith_def endswith_def suffix_to_prefix)
  show "find_quotes (dquote # ''hi'' @ dquote # '' - Alan Watts'')
       = [dquote # ''hi'' @ dquote # '' - Alan Watts'']"
    by (simp add: find_quotes_filter str_split_def startswith_def endswith_def suffix_to_prefix)
  show "interact_model E (a\<lparr>author_arg := ''Bob''\<rparr>) w = interact_model E a w"
    unfolding interact_model_def
    by (simp cong del: sum.case_cong_weak option.case_cong_weak list.case_cong_weak)
qed

text \<open>
  Claim C5 fails on the code.  With at least one sampling round \<^verbatim>\<open>get_batches\<close>
  returns no list at all: the first round raises \<open>NameError\<close> for \<^verbatim>\<open>context\<close>.
\<close>

theorem get_batches_rounds_raise:
  "batch_size \<noteq> 0 \<Longrightarrow> 1 \<le> nsamples div batch_size \<Longrightarrow>
   get_batches prompt enc nsamples batch_size output w = (Inl (NameError ''context''), w)"
  by (simp add: get_batches_result)

theorem get_batches_rounds_raise_witness:
  "\<forall>enc out w. get_batches ''hi'' enc 2 1 out w = (Inl (NameError ''context''), w)"
proof (intro allI)
  fix enc :: encoder and out :: "nat \<Rightarrow> int list list \<Rightarrow> int list list" and w :: world
  show "get_batches ''hi'' enc 2 1 out w = (Inl (NameError ''context''), w)"
    using get_batches_rounds_raise [of 1 2 "''hi''" enc out w] by simp
qed

text \<open>
  Claim C9 fails on the code.  With a prompt URL and a valid configuration the
  program fetches the URL once and reads nothing from standard input, but the
  generation step raises an unbound-name error in \<^verbatim>\<open>get_batches\<close>: the program
  does not return normally and prints no quote.
\<close>

theorem url_mode_raises:
  assumes "validate_batch (nsamples_arg a) (batch_size_arg a) = Inr bs"
    and "validate_length (length_arg a) (n_ctx E) = Inr len"
    and "prompt_url_arg a = Some (c # cs)"
  shows "interact_model E a w =
     (Inl (if 1 \<le> nsamples_arg a div bs then NameError ''context''
           else UnboundLocalError ''batches''),
      w\<lparr>fetched := fetched w @ [c # cs]\<rparr>)"
  using interact_model_url [OF assms, of w] by simp

theorem url_mode_raises_witness:
  "\<forall>E. interact_model E
     \<lparr>model_name_arg = ''117M'', nsamples_arg = 1, batch_size_arg = Some 1,
      length_arg = None, prompt_url_arg = Some ''http://example.com/prompt.txt'',
      author_arg = ''Alan Watts''\<rparr>
     \<lparr>stdin = [''hello''], stdout = [], fetched = [], sampler_runs = 0\<rparr>
   = (Inl (NameError ''context''),
      \<lparr>stdin = [''hello''], stdout = [], fetched = [''http://example.com/prompt.txt''],
       sampler_runs = 0\<rparr>)"
proof
  fix E :: env
  let ?a = "\<lparr>model_name_arg = ''117M'', nsamples_arg = 1, batch_size_arg = Some 1,
      length_arg = None, prompt_url_arg = Some ''http://example.com/prompt.txt'',
      author_arg = ''Alan Watts''\<rparr>"
  let ?w = "\<lparr>stdin = [''hello''], stdout = [], fetched = [], sampler_runs = 0\<rparr>"
  have "validate_batch (nsamples_arg ?a) (batch_size_arg ?a) = Inr 1"
    by (simp add: validate_batch_def py_mod_def)
  moreover have "validate_length (length_arg ?a) (n_ctx E) = Inr (n_ctx E div 2)"
    by (simp add: validate_length_def)
  moreover have "prompt_url_arg ?a = Some (CHR ''h'' # ''ttp://example.com/prompt.txt'')"
    by simp
  ultimately have "interact_model E ?a ?w =
     (Inl (if 1 \<le> nsamples_arg ?a div 1 then NameError ''context''
           else UnboundLocalError ''batches''),
      ?w\<lparr>fetched := fetched ?w @ [CHR ''h'' # ''ttp://example.com/prompt.txt'']\<rparr>)"
    by (rule url_mode_raises)
  then show "interact_model E ?a ?w = (Inl (NameError ''context''),
      \<lparr>stdin = [''hello''], stdout = [], fetched = [''http://example.com/prompt.txt''],
       sampler_runs = 0\<rparr>)"
    by simp
qed

end
